theory Spec2Isabelle
  imports Main
begin

section \<open>The SQL tables of SqlLiteSyncStorage\<close>

text \<open>
  The constructor of \<open>SqlLiteSyncStorage\<close> creates four tables. A table is the list of
  its rows in scan order; the \<open>PRIMARY KEY\<close> of a table is enforced by the statements
  that write it (an \<open>INSERT\<close> fails on a key that is present, an \<open>INSERT OR REPLACE\<close>
  removes the row that has the key first).

  \<^item> \<open>documents (id TEXT PRIMARY KEY, state TEXT NOT NULL, lastChangedClock INTEGER NOT NULL)\<close>
  \<^item> \<open>tombstones (id TEXT PRIMARY KEY, clock INTEGER NOT NULL)\<close>
  \<^item> \<open>metadata (key TEXT PRIMARY KEY, value TEXT NOT NULL)\<close>
  \<^item> \<open>clock (documentClock INTEGER NOT NULL, tombstoneHistoryStartsAtClock INTEGER NOT NULL)\<close>

  Clock values are the integers of SQL and of JavaScript, taken as unbounded (\<open>int\<close>);
  \<open>sinceClock\<close> is set to \<open>-1\<close> by the code, so the type is signed. A record \<open>'r\<close> is
  opaque: the \<open>state\<close> column holds \<open>JSON.stringify(state)\<close> and every reader applies
  \<open>JSON.parse\<close> to it, so the column is modelled by the record itself.
\<close>

type_synonym 'r documents_row = "string \<times> 'r \<times> int"
type_synonym tombstones_row = "string \<times> int"
type_synonym metadata_row = "string \<times> string"
type_synonym clock_row = "int \<times> int"

record 'r sql =
  documents_table :: "'r documents_row list"
  tombstones_table :: "tombstones_row list"
  metadata_table :: "metadata_row list"
  clock_table :: "clock_row list"

datatype error =
    OneRowExpected
  | PrimaryKeyConstraint
  | Thrown string

text \<open>
  \<open>cursor.one()\<close> of the host returns the row of a result that has exactly one row and
  throws otherwise.
\<close>

definition one :: "'a list \<Rightarrow> error + 'a" where
  "one rows = (case rows of [r] \<Rightarrow> Inr r | _ \<Rightarrow> Inl OneRowExpected)"

text \<open>
  \<open>getClock\<close>: \<open>SELECT documentClock FROM clock LIMIT 1\<close>, then \<open>.one()\<close>. The column is
  \<open>NOT NULL\<close>, so the \<open>?? 0\<close> of the source never applies.
\<close>

definition getClock :: "'r sql \<Rightarrow> error + int" where
  "getClock db = one (take 1 (map fst (clock_table db)))"

definition getTombstoneHistoryStartsAtClock :: "'r sql \<Rightarrow> error + int" where
  "getTombstoneHistoryStartsAtClock db = one (take 1 (map snd (clock_table db)))"

section \<open>The storage object and the transaction handle\<close>

text \<open>
  A listener is the closure \<open>cb\<close> that \<open>onChange\<close> builds around the caller's callback.
  Every call of \<open>onChange\<close> builds a new closure, so the set of listeners is a list of
  entries with fresh handles, in insertion order (the iteration order of a JavaScript
  \<open>Set\<close>). What a listener does with its arguments is outside the store; the model keeps
  whether it returns (\<open>None\<close>) or throws (\<open>Some e\<close>), and a call of a listener is an
  \<open>event\<close>: the handle, the source and the clock it was given.
\<close>

type_synonym listener = "nat \<times> (string \<Rightarrow> int \<Rightarrow> error option)"
type_synonym event = "nat \<times> string \<times> int"

text \<open>
  \<open>prunePending\<close> is the state of the throttled \<open>pruneTombstones\<close>
  (\<open>throttle(..., 1000, { leading: false })\<close>): a call only requests a later run.
\<close>

record 'r storage =
  sql :: "'r sql"
  listeners :: "listener list"
  nextListener :: nat
  prunePending :: bool

record 'r txn =
  storage :: "'r storage"
  didIncrementClock :: bool

definition onChange :: "'r storage \<Rightarrow> (string \<Rightarrow> int \<Rightarrow> error option) \<Rightarrow> nat \<times> 'r storage" where
  "onChange s callback =
     (nextListener s,
      s\<lparr>listeners := listeners s @ [(nextListener s, callback)],
        nextListener := Suc (nextListener s)\<rparr>)"

text \<open>The function that \<open>onChange\<close> returns, applied: \<open>this.listeners.delete(cb)\<close>.\<close>

definition unsubscribe :: "'r storage \<Rightarrow> nat \<Rightarrow> 'r storage" where
  "unsubscribe s h = s\<lparr>listeners := filter (\<lambda>l. fst l \<noteq> h) (listeners s)\<rparr>"

definition update_sql :: "('r sql \<Rightarrow> 'r sql) \<Rightarrow> 'r txn \<Rightarrow> 'r txn" where
  "update_sql f t = t\<lparr>storage := (storage t)\<lparr>sql := f (sql (storage t))\<rparr>\<rparr>"

text \<open>
  \<open>getNextClock\<close>: on the first call of the handle,
  \<open>UPDATE clock SET documentClock = documentClock + 1\<close> (every row of the table); then
  the clock is read.
\<close>

definition inc_rows :: "clock_row list \<Rightarrow> clock_row list" where
  "inc_rows rows = map (\<lambda>(dc, w). (dc + 1, w)) rows"

definition getNextClock :: "'r txn \<Rightarrow> (error + int) \<times> 'r txn" where
  "getNextClock t =
     (let t' = (if \<not> didIncrementClock t
                then update_sql (\<lambda>db. db\<lparr>clock_table := inc_rows (clock_table db)\<rparr>)
                       (t\<lparr>didIncrementClock := True\<rparr>)
                else t)
      in (getClock (sql (storage t')), t'))"

definition getDocument :: "'r txn \<Rightarrow> string \<Rightarrow> ('r \<times> int) option" where
  "getDocument t ident =
     (case filter (\<lambda>(i, st, c). i = ident) (documents_table (sql (storage t))) of
        [] \<Rightarrow> None
      | (i, st, c) # _ \<Rightarrow> Some (st, c))"

text \<open>
  \<open>setDocument\<close>: \<open>INSERT OR REPLACE INTO documents (id, state, lastChangedClock)\<close>.
  The statement touches the \<open>documents\<close> table only.
\<close>

definition setDocument :: "'r txn \<Rightarrow> string \<Rightarrow> 'r \<Rightarrow> (error + unit) \<times> 'r txn" where
  "setDocument t ident state =
     (case getNextClock t of
        (Inl e, t') \<Rightarrow> (Inl e, t')
      | (Inr c, t') \<Rightarrow>
          (Inr (),
           update_sql (\<lambda>db. db\<lparr>documents_table :=
               filter (\<lambda>(i, st, lc). i \<noteq> ident) (documents_table db) @ [(ident, state, c)]\<rparr>) t'))"

text \<open>
  \<open>deleteDocument\<close>: \<open>DELETE FROM documents WHERE id = ?\<close>, then
  \<open>INSERT INTO tombstones (id, clock) VALUES (?, ?)\<close>, then a request to the throttled
  \<open>pruneTombstones\<close>. The insert is a plain \<open>INSERT\<close>: on an id that the
  \<open>tombstones\<close> table holds, the primary key makes the statement fail, and the error
  leaves the method before the prune is requested. The statements before it stay
  executed (they are undone only when the enclosing transaction rolls back).
\<close>

definition deleteDocument :: "'r txn \<Rightarrow> string \<Rightarrow> (error + unit) \<times> 'r txn" where
  "deleteDocument t ident =
     (case getNextClock t of
        (Inl e, t') \<Rightarrow> (Inl e, t')
      | (Inr c, t') \<Rightarrow>
          (let t1 = update_sql (\<lambda>db. db\<lparr>documents_table :=
                      filter (\<lambda>(i, st, lc). i \<noteq> ident) (documents_table db)\<rparr>) t'
           in if ident \<in> set (map fst (tombstones_table (sql (storage t1))))
              then (Inl PrimaryKeyConstraint, t1)
              else
                (let t2 = update_sql (\<lambda>db. db\<lparr>tombstones_table :=
                            tombstones_table db @ [(ident, c)]\<rparr>) t1
                 in (Inr (), t2\<lparr>storage := (storage t2)\<lparr>prunePending := True\<rparr>\<rparr>))))"

text \<open>
  The generators \<open>documents\<close>, \<open>documentIds\<close> and \<open>tombstones\<close> scan a table; the model
  gives the rows they yield when run to the end at once.
\<close>

definition documents :: "'r txn \<Rightarrow> (string \<times> 'r \<times> int) list" where
  "documents t = documents_table (sql (storage t))"

definition documentIds :: "'r txn \<Rightarrow> string list" where
  "documentIds t = map fst (documents_table (sql (storage t)))"

definition tombstones :: "'r txn \<Rightarrow> (string \<times> int) list" where
  "tombstones t = tombstones_table (sql (storage t))"

definition getMetadata :: "'r txn \<Rightarrow> string \<Rightarrow> string option" where
  "getMetadata t k =
     (case filter (\<lambda>(k', v). k' = k) (metadata_table (sql (storage t))) of
        [] \<Rightarrow> None
      | (k', v) # _ \<Rightarrow> Some v)"

definition setMetadata :: "'r txn \<Rightarrow> string \<Rightarrow> string \<Rightarrow> 'r txn" where
  "setMetadata t k v =
     update_sql (\<lambda>db. db\<lparr>metadata_table :=
        filter (\<lambda>(k', v'). k' \<noteq> k) (metadata_table db) @ [(k, v)]\<rparr>) t"

section \<open>The change feed\<close>

datatype 'r change = WIPE_ALL | PUT 'r | DELETE string

text \<open>
  A line of \<open>console.error\<close>: the message and the two numbers printed with it.
\<close>

type_synonym console_line = "string \<times> int \<times> int"

text \<open>
  \<open>getChangesSince\<close>, statement by statement. The result is the lines written to the
  console and the batch of changes.
\<close>

definition getChangesSince :: "'r sql \<Rightarrow> int \<Rightarrow> error + (console_line list \<times> 'r change list)" where
  "getChangesSince db sinceClock0 =
     (case getClock db of
        Inl e \<Rightarrow> Inl e
      | Inr clock \<Rightarrow>
          if sinceClock0 = clock then Inr ([], [])
          else
            (let (console, sinceClock1) =
                   (if sinceClock0 > clock
                    then ([(''sinceClock is greater than clock'', sinceClock0, clock)], -1)
                    else ([], sinceClock0))
             in case getTombstoneHistoryStartsAtClock db of
                  Inl e \<Rightarrow> Inl e
                | Inr tombstoneHistoryStartsAtClock \<Rightarrow>
                    (let (sinceClock, changes0) =
                           (if sinceClock1 < tombstoneHistoryStartsAtClock
                            then (-1, [WIPE_ALL])
                            else (sinceClock1, []));
                         dbDocs = filter (\<lambda>(i, st, lc). lc > sinceClock) (documents_table db);
                         changes1 = changes0 @ map (\<lambda>(i, st, lc). PUT st) dbDocs;
                         dbTombstones = filter (\<lambda>(i, c). c > sinceClock) (tombstones_table db);
                         changes2 = changes1 @ map (\<lambda>(i, c). DELETE i) dbTombstones
                     in Inr (console, changes2))))"

section \<open>Transaction bodies\<close>

text \<open>
  The callback of \<open>transaction\<close> is a closure that receives the handle. It is modelled
  by what it can do with the handle: return a value, throw, or call one of the public
  methods and go on according to what the call gave back (a value or a thrown error, which
  the closure may catch). Console output of \<open>getChangesSince\<close> is not visible to the
  closure.
\<close>

datatype 'r request =
    GetClock
  | GetDocument string
  | SetDocument string 'r
  | DeleteDocument string
  | Documents
  | DocumentIds
  | GetMetadata string
  | SetMetadata string string
  | Tombstones
  | GetChangesSince int

datatype 'r response =
    RVoid
  | RClock int
  | RDocument "('r \<times> int) option"
  | RDocuments "(string \<times> 'r \<times> int) list"
  | RDocumentIds "string list"
  | RMetadata "string option"
  | RTombstones "(string \<times> int) list"
  | RChanges "'r change list"

datatype ('r, 'a) body =
    Return 'a
  | Throw error
  | Call "'r request" "error + 'r response \<Rightarrow> ('r, 'a) body"

fun exec :: "'r request \<Rightarrow> 'r txn \<Rightarrow> (error + 'r response) \<times> 'r txn" where
  "exec GetClock t =
     (case getClock (sql (storage t)) of Inl e \<Rightarrow> (Inl e, t) | Inr c \<Rightarrow> (Inr (RClock c), t))"
| "exec (GetDocument ident) t = (Inr (RDocument (getDocument t ident)), t)"
| "exec (SetDocument ident state) t =
     (case setDocument t ident state of
        (Inl e, t') \<Rightarrow> (Inl e, t')
      | (Inr u, t') \<Rightarrow> (Inr RVoid, t'))"
| "exec (DeleteDocument ident) t =
     (case deleteDocument t ident of
        (Inl e, t') \<Rightarrow> (Inl e, t')
      | (Inr u, t') \<Rightarrow> (Inr RVoid, t'))"
| "exec Documents t = (Inr (RDocuments (documents t)), t)"
| "exec DocumentIds t = (Inr (RDocumentIds (documentIds t)), t)"
| "exec (GetMetadata k) t = (Inr (RMetadata (getMetadata t k)), t)"
| "exec (SetMetadata k v) t = (Inr RVoid, setMetadata t k v)"
| "exec Tombstones t = (Inr (RTombstones (tombstones t)), t)"
| "exec (GetChangesSince sinceClock) t =
     (case getChangesSince (sql (storage t)) sinceClock of
        Inl e \<Rightarrow> (Inl e, t)
      | Inr (console, changes) \<Rightarrow> (Inr (RChanges changes), t))"

text \<open>
  Running a body on a handle gives its outcome, the handle afterwards and the calls it
  made, in order.
\<close>

primrec run_body :: "('r, 'a) body \<Rightarrow> 'r txn \<Rightarrow> (error + 'a) \<times> 'r txn \<times> 'r request list" where
  "run_body (Return v) = (\<lambda>t. (Inr v, t, []))"
| "run_body (Throw e) = (\<lambda>t. (Inl e, t, []))"
| "run_body (Call rq k) =
     (\<lambda>t. case exec rq t of
             (res, t') \<Rightarrow>
               (case run_body (k res) t' of (out, t'', calls) \<Rightarrow> (out, t'', rq # calls)))"

fun is_mutation :: "'r request \<Rightarrow> bool" where
  "is_mutation (SetDocument ident state) = True"
| "is_mutation (DeleteDocument ident) = True"
| "is_mutation (SetMetadata k v) = True"
| "is_mutation rq = False"

section \<open>transaction\<close>

text \<open>
  Modelled from the spec: \<open>storage.transactionSync\<close> of the host, which is not part of the
  repository. "The scope commits on normal return of the body and rolls back on thrown
  error": the SQL tables go back to what they were when the scope opened, the error goes on
  to the caller. What is not SQL (the listener set, the throttle, the events already
  delivered) is not part of the scope.
\<close>

definition transactionSync ::
  "('r storage \<Rightarrow> (error + 'a) \<times> 'r storage \<times> event list) \<Rightarrow> 'r storage
     \<Rightarrow> (error + 'a) \<times> 'r storage \<times> event list" where
  "transactionSync f s =
     (case f s of
        (Inr v, s', evs) \<Rightarrow> (Inr v, s', evs)
      | (Inl e, s', evs) \<Rightarrow> (Inl e, s'\<lparr>sql := sql s\<rparr>, evs))"

text \<open>
  Modelled from the spec: \<open>transaction\<close> of \<open>@tldraw/state\<close>, imported by the source and
  not under \<open>src/\<close>: the "reactive batching envelope" around the body. It runs the closure
  and gives back its result or its error; it does not touch the SQL tables.
\<close>

definition state_transaction :: "('s \<Rightarrow> 'x) \<Rightarrow> 's \<Rightarrow> 'x" where
  "state_transaction f = f"

text \<open>
  \<open>for (const listener of this.listeners) listener(source, clockAfter)\<close>: listeners are
  called in order; one that throws ends the loop.
\<close>

fun notify :: "listener list \<Rightarrow> string \<Rightarrow> int \<Rightarrow> event list \<times> error option" where
  "notify [] source c = ([], None)"
| "notify ((h, cb) # ls) source c =
     (case cb source c of
        Some e \<Rightarrow> ([(h, source, c)], Some e)
      | None \<Rightarrow> (case notify ls source c of (evs, r) \<Rightarrow> ((h, source, c) # evs, r)))"

record 'a transaction_result =
  documentClock :: int
  didChange :: bool
  result :: 'a

definition transaction ::
  "'r storage \<Rightarrow> string \<Rightarrow> ('r, 'a) body
     \<Rightarrow> (error + 'a transaction_result) \<times> 'r storage \<times> event list" where
  "transaction s0 source callback =
     (case getClock (sql s0) of
        Inl e \<Rightarrow> (Inl e, s0, [])
      | Inr clockBefore \<Rightarrow>
          transactionSync (\<lambda>s.
            case state_transaction (run_body callback) \<lparr>storage = s, didIncrementClock = False\<rparr> of
              (Inl e, t, calls) \<Rightarrow> (Inl e, storage t, [])
            | (Inr res, t, calls) \<Rightarrow>
                (case getClock (sql (storage t)) of
                   Inl e \<Rightarrow> (Inl e, storage t, [])
                 | Inr clockAfter \<Rightarrow>
                     (let didChange = clockAfter > clockBefore;
                          ret = \<lparr>documentClock = clockAfter,
                                 didChange = clockAfter > clockBefore,
                                 result = res\<rparr>
                      in if didChange
                         then (case notify (listeners (storage t)) source clockAfter of
                                 (evs, Some e) \<Rightarrow> (Inl e, storage t, evs)
                               | (evs, None) \<Rightarrow> (Inr ret, storage t, evs))
                         else (Inr ret, storage t, [])))) s0)"

section \<open>pruneTombstones\<close>

definition TOMBSTONE_PRUNE_BUFFER_SIZE :: nat where
  "TOMBSTONE_PRUNE_BUFFER_SIZE = 1000"

definition MAX_TOMBSTONES :: nat where
  "MAX_TOMBSTONES = 5000"

text \<open>
  \<open>SELECT id, clock FROM tombstones ORDER BY clock DESC\<close>. SQL leaves the order of rows
  with equal clocks open; the model keeps them in table order.
\<close>

definition order_by_clock_desc :: "tombstones_row list \<Rightarrow> tombstones_row list" where
  "order_by_clock_desc rows = sort_key (\<lambda>(i, c). - c) rows"

text \<open>
  The \<open>while\<close> loop that moves the cutoff past rows with the clock of the row before it.
  \<open>tombstones[cutoff - 1]?.clock\<close> is \<open>undefined\<close> at \<open>cutoff = 0\<close> and then differs
  from the clock at \<open>cutoff\<close>.
\<close>

function find_cutoff :: "tombstones_row list \<Rightarrow> nat \<Rightarrow> nat" where
  "find_cutoff ts cutoff =
     (if cutoff < length ts \<and> 0 < cutoff \<and> snd (ts ! (cutoff - 1)) = snd (ts ! cutoff)
      then find_cutoff ts (Suc cutoff)
      else cutoff)"
  by pat_completeness auto
termination
  by (relation "measure (\<lambda>(ts, cutoff). length ts - cutoff)") auto

declare find_cutoff.simps [simp del]

definition prune_cutoff :: "'r sql \<Rightarrow> nat" where
  "prune_cutoff db =
     find_cutoff (order_by_clock_desc (tombstones_table db)) TOMBSTONE_PRUNE_BUFFER_SIZE"

definition delete_tombstone :: "'r sql \<Rightarrow> string \<Rightarrow> 'r sql" where
  "delete_tombstone db ident =
     db\<lparr>tombstones_table := filter (\<lambda>(i, c). i \<noteq> ident) (tombstones_table db)\<rparr>"

text \<open>
  The body of the throttled function. It gives the tables after the run and the error
  that ended it, if any: \<open>getClock\<close> is the only call that can throw, and it is evaluated
  before the first write.
\<close>

definition pruneTombstones :: "'r sql \<Rightarrow> error option \<times> 'r sql" where
  "pruneTombstones db =
     (let tombstoneCount = length (tombstones_table db)
      in if tombstoneCount > MAX_TOMBSTONES
         then
           (let tombstones = order_by_clock_desc (tombstones_table db);
                cutoff = prune_cutoff db
            in case (if cutoff < length tombstones
                     then Inr (snd (tombstones ! cutoff))
                     else getClock db) of
                 Inl e \<Rightarrow> (Some e, db)
               | Inr newTombstoneHistoryStartsAtClock \<Rightarrow>
                   (let db1 = db\<lparr>clock_table :=
                                map (\<lambda>(dc, w). (dc, newTombstoneHistoryStartsAtClock))
                                  (clock_table db)\<rparr>
                    in if cutoff < length tombstones
                       then (let idsToDelete = map fst (drop cutoff tombstones)
                             in (None, foldl delete_tombstone db1 idsToDelete))
                       else (None, db1)))
         else (None, db))"

text \<open>The throttle fires: the pending request, if any, runs the body once.\<close>

definition run_pending_prune :: "'r storage \<Rightarrow> error option \<times> 'r storage" where
  "run_pending_prune s =
     (if prunePending s
      then (case pruneTombstones (sql s) of
              (r, db) \<Rightarrow> (r, s\<lparr>sql := db, prunePending := False\<rparr>))
      else (None, s))"

section \<open>Vocabulary of the properties\<close>

text \<open>The states of the \<open>PUT\<close> entries of a batch, in order.\<close>

fun puts_of :: "'r change list \<Rightarrow> 'r list" where
  "puts_of [] = []"
| "puts_of (PUT st # cs) = st # puts_of cs"
| "puts_of (c # cs) = puts_of cs"

text \<open>Invariant 2 of the data model: no id is in both \<open>documents\<close> and \<open>tombstones\<close>.\<close>

definition ids_disjoint :: "'r sql \<Rightarrow> bool" where
  "ids_disjoint db \<longleftrightarrow>
     list_all (\<lambda>i. i \<notin> set (map fst (tombstones_table db))) (map fst (documents_table db))"

text \<open>The primary keys: no table has two rows with one key.\<close>

definition keys_distinct :: "'r sql \<Rightarrow> bool" where
  "keys_distinct db \<longleftrightarrow>
     distinct (map fst (documents_table db)) \<and>
     distinct (map fst (tombstones_table db)) \<and>
     distinct (map fst (metadata_table db))"

text \<open>
  What one handle may do to the clock between two of its states: nothing, or, if it has
  not incremented yet, the one increment. Listeners are not touched.
\<close>

definition step_ok :: "'r txn \<Rightarrow> 'r txn \<Rightarrow> bool" where
  "step_ok t t' \<longleftrightarrow>
     listeners (storage t') = listeners (storage t) \<and>
     nextListener (storage t') = nextListener (storage t) \<and>
     (if didIncrementClock t
      then didIncrementClock t' \<and> clock_table (sql (storage t')) = clock_table (sql (storage t))
      else (\<not> didIncrementClock t' \<and> clock_table (sql (storage t')) = clock_table (sql (storage t)))
         \<or> (didIncrementClock t' \<and>
             clock_table (sql (storage t')) = inc_rows (clock_table (sql (storage t)))))"

text \<open>A call whose error is not caught: \<open>txn.method(...)\<close> outside any \<open>try\<close>.\<close>

definition call :: "'r request \<Rightarrow> ('r response \<Rightarrow> ('r, 'a) body) \<Rightarrow> ('r, 'a) body" where
  "call rq k = Call rq (\<lambda>res. case res of Inl e \<Rightarrow> Throw e | Inr v \<Rightarrow> k v)"

section \<open>Example stores and bodies\<close>

text \<open>
  The store after scenario S1 of the specification (one document \<open>r:1\<close> written at clock
  1), and after S3 (then \<open>r:2\<close> written, then \<open>r:1\<close> deleted), with two listeners that
  return.
\<close>

definition store_S1 :: "string sql" where
  "store_S1 = \<lparr>documents_table = [(''r:1'', ''one'', 1)],
               tombstones_table = [],
               metadata_table = [(''schema'', ''{}'')],
               clock_table = [(1, 0)]\<rparr>"

definition store_S3 :: "string sql" where
  "store_S3 = \<lparr>documents_table = [(''r:2'', ''two'', 2)],
               tombstones_table = [(''r:1'', 3)],
               metadata_table = [(''schema'', ''{}'')],
               clock_table = [(3, 0)]\<rparr>"

definition quiet :: "string \<Rightarrow> int \<Rightarrow> error option" where
  "quiet source c = None"

definition storage_S1 :: "string storage" where
  "storage_S1 = \<lparr>sql = store_S1, listeners = [(0, quiet), (1, quiet)],
                 nextListener = 2, prunePending = False\<rparr>"

definition storage_S3 :: "string storage" where
  "storage_S3 = \<lparr>sql = store_S3, listeners = [(0, quiet), (1, quiet)],
                 nextListener = 2, prunePending = False\<rparr>"

text \<open>The store after scenario S2: \<open>r:1\<close> deleted at clock 2, a prune requested.\<close>

definition storage_S2 :: "string storage" where
  "storage_S2 =
     \<lparr>sql = \<lparr>documents_table = [],
             tombstones_table = [(''r:1'', 2)],
             metadata_table = [(''schema'', ''{}'')],
             clock_table = [(2, 0)]\<rparr>,
      listeners = [(0, quiet), (1, quiet)], nextListener = 2, prunePending = True\<rparr>"

text \<open>
  The store of scenario S4: watermark 10, clock 12, one tombstone at clock 11 and one
  document changed at clock 12.
\<close>

definition store_S4 :: "string sql" where
  "store_S4 = \<lparr>documents_table = [(''r:7'', ''seven'', 12)],
               tombstones_table = [(''r:6'', 11)],
               metadata_table = [(''schema'', ''{}'')],
               clock_table = [(12, 10)]\<rparr>"

text \<open>\<open>txn => { txn.setDocument('r:3', ...); txn.setDocument('r:4', ...); throw ... }\<close>\<close>

definition body_write_then_throw :: "(string, unit) body" where
  "body_write_then_throw =
     call (SetDocument ''r:3'' ''three'') (\<lambda>_.
     call (SetDocument ''r:4'' ''four'') (\<lambda>_.
     Throw (Thrown ''boom'')))"

text \<open>\<open>txn => { txn.setDocument('r:3', ...); txn.deleteDocument('r:2') }\<close>\<close>

definition body_set_delete :: "(string, unit) body" where
  "body_set_delete =
     call (SetDocument ''r:3'' ''three'') (\<lambda>_.
     call (DeleteDocument ''r:2'') (\<lambda>_.
     Return ()))"

text \<open>\<open>txn => txn.getDocument('r:2')\<close>\<close>

definition body_read :: "(string, string response) body" where
  "body_read = call (GetDocument ''r:2'') (\<lambda>r. Return r)"

text \<open>\<open>txn => txn.deleteDocument('r:1')\<close> and \<open>txn => txn.setDocument('r:1', ...)\<close>\<close>

definition body_delete_r1 :: "(string, unit) body" where
  "body_delete_r1 = call (DeleteDocument ''r:1'') (\<lambda>_. Return ())"

definition body_set_r1 :: "(string, unit) body" where
  "body_set_r1 = call (SetDocument ''r:1'' ''one again'') (\<lambda>_. Return ())"

text \<open>
  A store with 5001 tombstones: tombstone number \<open>n\<close> has the id \<open>t\<close> followed by \<open>n\<close>
  letters \<open>i\<close> and the clock \<open>n\<close>, for \<open>n\<close> from 5000 down to 0.
\<close>

definition tombstone_no :: "nat \<Rightarrow> tombstones_row" where
  "tombstone_no n = (CHR ''t'' # replicate n (CHR ''i''), int n)"

definition prune_example :: "string sql" where
  "prune_example =
     \<lparr>documents_table = [(''r:2'', ''two'', 2)],
      tombstones_table = map tombstone_no (rev [0..<5001]),
      metadata_table = [(''schema'', ''{}'')],
      clock_table = [(5001, 0)]\<rparr>"

lemmas eval_defs =
  transaction_def transactionSync_def state_transaction_def call_def
  setDocument_def deleteDocument_def getNextClock_def update_sql_def inc_rows_def
  getDocument_def getClock_def one_def Let_def quiet_def
  storage_S1_def storage_S2_def storage_S3_def store_S1_def store_S3_def
  body_write_then_throw_def body_set_delete_def body_read_def body_delete_r1_def body_set_r1_def

section \<open>Reading the clock row\<close>

lemma getClock_rows: "getClock db = Inr c \<longleftrightarrow> (\<exists>w rest. clock_table db = (c, w) # rest)"
  by (cases "clock_table db") (auto simp: getClock_def one_def)

lemma getTombstoneHistoryStartsAtClock_rows:
  "getTombstoneHistoryStartsAtClock db = Inr w \<longleftrightarrow> (\<exists>c rest. clock_table db = (c, w) # rest)"
  by (cases "clock_table db") (auto simp: getTombstoneHistoryStartsAtClock_def one_def)

section \<open>Properties of the change feed\<close>

lemma puts_of_append: "puts_of (xs @ ys) = puts_of xs @ puts_of ys"
  by (induction xs rule: puts_of.induct) auto

lemma puts_of_PUT: "puts_of (map (\<lambda>(i, st, lc). PUT st) rows) = map (\<lambda>(i, st, lc). st) rows"
  by (induction rows) auto

lemma puts_of_DELETE: "puts_of (map (\<lambda>(i, c). DELETE i) rows) = []"
  by (induction rows) auto

text \<open>
  C9. For every store whose clock can be read, \<open>getChangesSince(getClock())\<close> is the empty
  batch (and nothing is logged).
\<close>

theorem getChangesSince_at_clock_empty:
  "getClock db = Inr c \<Longrightarrow> getChangesSince db c = Inr ([], [])"
  by (simp add: getChangesSince_def)

theorem getChangesSince_at_clock_empty_witness:
  "getClock store_S3 = Inr 3 \<and> getChangesSince store_S3 3 = Inr ([], [])"
proof -
  have h: "getClock store_S3 = Inr 3"
    by (simp add: getClock_def one_def store_S3_def)
  show ?thesis
    using h getChangesSince_at_clock_empty [OF h] by simp
qed

text \<open>
  C8. A call with \<open>sinceClock > getClock()\<close> raises no error: it logs one line and returns
  the batch that \<open>getChangesSince(-1)\<close>, the call of a caller that starts from the
  beginning, returns. The clock is a count that starts at 0, so \<open>0 \<le> c\<close>.
\<close>

theorem getChangesSince_future_cursor:
  assumes "getClock db = Inr c" and "0 \<le> c" and "c < sinceClock"
  shows "\<exists>batch. getChangesSince db sinceClock
             = Inr ([(''sinceClock is greater than clock'', sinceClock, c)], batch)
           \<and> getChangesSince db (-1) = Inr ([], batch)"
proof -
  from assms(1) obtain w rest where rows: "clock_table db = (c, w) # rest"
    by (auto simp: getClock_rows)
  then have w: "getTombstoneHistoryStartsAtClock db = Inr w"
    by (auto simp: getTombstoneHistoryStartsAtClock_rows)
  show ?thesis
    using assms w by (simp add: getChangesSince_def Let_def)
qed

theorem getChangesSince_future_cursor_witness:
  "getClock store_S3 = Inr 3 \<and> (0::int) \<le> 3 \<and> (3::int) < 5 \<and>
   (\<exists>batch. getChangesSince store_S3 5
             = Inr ([(''sinceClock is greater than clock'', 5, 3)], batch)
           \<and> getChangesSince store_S3 (-1) = Inr ([], batch))"
proof -
  have h: "getClock store_S3 = Inr 3"
    by (simp add: getClock_def one_def store_S3_def)
  show ?thesis
    using h getChangesSince_future_cursor [OF h, of 5] by simp
qed

text \<open>
  C7, as stated, at \<open>sinceClock = 5\<close> on the store of S3 (clock 3, watermark 0): the cursor
  is not below the watermark, and the batch starts with \<open>WIPE_ALL\<close>.
\<close>

theorem getChangesSince_wipe_counterexample:
  "getClock store_S3 = Inr 3 \<and> (5::int) \<noteq> 3
   \<and> getTombstoneHistoryStartsAtClock store_S3 = Inr 0
   \<and> getChangesSince store_S3 5
       = Inr ([(''sinceClock is greater than clock'', 5, 3)],
              [WIPE_ALL, PUT ''two'', DELETE ''r:1''])
   \<and> \<not> (5::int) < 0"
  by (simp add: getChangesSince_def getClock_def getTombstoneHistoryStartsAtClock_def
        one_def store_S3_def)

text \<open>
  C7, amended. For \<open>sinceClock \<noteq> getClock()\<close> the call returns a batch, and the batch
  contains \<open>WIPE_ALL\<close> exactly when the cursor that the code compares with the watermark
  is below it: that cursor is \<open>sinceClock\<close>, or \<open>-1\<close> when \<open>sinceClock > getClock()\<close>.
  \<open>WIPE_ALL\<close> occurs at most once; when it occurs it is the first element and the \<open>PUT\<close>
  entries are the documents with \<open>lastChangedClock > -1\<close>, in table order: every
  document of the store, when no \<open>lastChangedClock\<close> is negative.
\<close>

theorem getChangesSince_wipe_all:
  assumes "getClock db = Inr c" and "sinceClock \<noteq> c"
    and "getTombstoneHistoryStartsAtClock db = Inr w"
  shows "\<exists>console changes. getChangesSince db sinceClock = Inr (console, changes)
     \<and> (WIPE_ALL \<in> set changes \<longleftrightarrow> (if sinceClock > c then -1 else sinceClock) < w)
     \<and> count_list changes WIPE_ALL \<le> 1
     \<and> (WIPE_ALL \<in> set changes \<longrightarrow>
          (\<exists>rest. changes = WIPE_ALL # rest) \<and>
          puts_of changes =
            map (\<lambda>(i, st, lc). st) (filter (\<lambda>(i, st, lc). -1 < lc) (documents_table db)) \<and>
          (list_all (\<lambda>(i, st, lc). 0 \<le> lc) (documents_table db) \<longrightarrow>
             puts_of changes = map (\<lambda>(i, st, lc). st) (documents_table db)))"
proof -
  have f: "list_all (\<lambda>(i, st, lc). 0 \<le> lc) xs \<Longrightarrow> filter (\<lambda>(i, st, lc). -1 < lc) xs = xs"
    for xs :: "'a documents_row list"
    by (induction xs) auto
  have a: "WIPE_ALL \<notin> set (map (\<lambda>(i, st, lc). PUT st) xs)" for xs :: "'a documents_row list"
    by (induction xs) auto
  have b: "WIPE_ALL \<notin> set (map (\<lambda>(i, c). DELETE i) ys)" for ys :: "tombstones_row list"
    by (induction ys) auto
  have a': "count_list (map (\<lambda>(i, st, lc). PUT st) xs) WIPE_ALL = 0"
    for xs :: "'a documents_row list"
    using a by (simp add: count_list_0_iff del: set_map)
  have b': "count_list (map (\<lambda>(i, c). DELETE i) ys) (WIPE_ALL :: 'a change) = 0"
    for ys :: "tombstones_row list"
    using b by (simp add: count_list_0_iff del: set_map)
  show ?thesis
    using assms a b a' b'
    by (auto simp add: getChangesSince_def Let_def puts_of_append puts_of_PUT puts_of_DELETE f
         simp del: set_map)
qed

theorem getChangesSince_wipe_all_witness:
  "getClock store_S4 = Inr 12 \<and> (5::int) \<noteq> 12
   \<and> getTombstoneHistoryStartsAtClock store_S4 = Inr 10
   \<and> (\<exists>console changes. getChangesSince store_S4 5 = Inr (console, changes)
        \<and> WIPE_ALL \<in> set changes
        \<and> count_list changes WIPE_ALL \<le> 1
        \<and> (\<exists>rest. changes = WIPE_ALL # rest)
        \<and> list_all (\<lambda>(i, st, lc). 0 \<le> lc) (documents_table store_S4)
        \<and> puts_of changes = [''seven''])"
proof -
  have h1: "getClock store_S4 = Inr 12"
    by (simp add: getClock_def one_def store_S4_def)
  have h2: "(5::int) \<noteq> 12" by simp
  have h3: "getTombstoneHistoryStartsAtClock store_S4 = Inr 10"
    by (simp add: getTombstoneHistoryStartsAtClock_def one_def store_S4_def)
  from getChangesSince_wipe_all [OF h1 h2 h3]
  obtain console changes where
    g: "getChangesSince store_S4 5 = Inr (console, changes)"
    and iff: "WIPE_ALL \<in> set changes \<longleftrightarrow> (if (5::int) > 12 then -1 else 5) < (10::int)"
    and cnt: "count_list changes WIPE_ALL \<le> 1"
    and imp: "WIPE_ALL \<in> set changes \<longrightarrow>
          (\<exists>rest. changes = WIPE_ALL # rest) \<and>
          puts_of changes =
            map (\<lambda>(i, st, lc). st) (filter (\<lambda>(i, st, lc). -1 < lc) (documents_table store_S4)) \<and>
          (list_all (\<lambda>(i, st, lc). 0 \<le> lc) (documents_table store_S4) \<longrightarrow>
             puts_of changes = map (\<lambda>(i, st, lc). st) (documents_table store_S4))"
    by blast
  from iff have w: "WIPE_ALL \<in> set changes" by simp
  have nonneg: "list_all (\<lambda>(i, st, lc). 0 \<le> lc) (documents_table store_S4)"
    by (simp add: store_S4_def)
  from imp w nonneg have r: "\<exists>rest. changes = WIPE_ALL # rest"
    and p0: "puts_of changes = map (\<lambda>(i, st, lc). st) (documents_table store_S4)"
    by blast+
  from p0 have p: "puts_of changes = [''seven'']"
    by (simp add: store_S4_def)
  show ?thesis using h1 h2 h3 g w cnt r nonneg p by blast
qed

section \<open>Properties of the handle and of transaction\<close>

lemma step_ok_refl: "step_ok t t"
  by (simp add: step_ok_def)

lemma step_ok_trans: "step_ok t t' \<Longrightarrow> step_ok t' t'' \<Longrightarrow> step_ok t t''"
  by (auto simp: step_ok_def split: if_splits)

lemma getNextClock_ok: "getNextClock t = (r, t') \<Longrightarrow> step_ok t t'"
  by (auto simp: getNextClock_def Let_def step_ok_def update_sql_def inc_rows_def split: if_splits)

lemma update_sql_documents_ok:
  "step_ok t (update_sql (\<lambda>db. db\<lparr>documents_table := f db\<rparr>) t)"
  by (simp add: step_ok_def update_sql_def)

lemma update_sql_tombstones_ok:
  "step_ok t (update_sql (\<lambda>db. db\<lparr>tombstones_table := f db\<rparr>) t)"
  by (simp add: step_ok_def update_sql_def)

lemma update_sql_metadata_ok:
  "step_ok t (update_sql (\<lambda>db. db\<lparr>metadata_table := f db\<rparr>) t)"
  by (simp add: step_ok_def update_sql_def)

lemma prune_request_ok: "step_ok t (t\<lparr>storage := (storage t)\<lparr>prunePending := True\<rparr>\<rparr>)"
  by (simp add: step_ok_def)

lemma setDocument_ok: "setDocument t ident st = (r, t') \<Longrightarrow> step_ok t t'"
  unfolding setDocument_def
  by (auto split: prod.splits sum.splits dest!: getNextClock_ok
        intro: step_ok_trans update_sql_documents_ok)

lemma deleteDocument_ok: "deleteDocument t ident = (r, t') \<Longrightarrow> step_ok t t'"
  unfolding deleteDocument_def Let_def
  by (auto split: prod.splits sum.splits if_splits dest!: getNextClock_ok
        simp: step_ok_def update_sql_def)

lemma exec_ok: "exec rq t = (r, t') \<Longrightarrow> step_ok t t'"
  by (cases rq)
     (auto split: prod.splits sum.splits simp: step_ok_refl setMetadata_def update_sql_metadata_ok
        dest: setDocument_ok deleteDocument_ok)

lemma exec_no_mutation: "\<not> is_mutation rq \<Longrightarrow> exec rq t = (r, t') \<Longrightarrow> t' = t"
  by (cases rq) (auto split: prod.splits sum.splits)

lemma run_body_ok: "run_body b t = (out, t', calls) \<Longrightarrow> step_ok t t'"
proof (induction b arbitrary: t out t' calls)
  case (Call rq k)
  obtain res t1 where e: "exec rq t = (res, t1)" by (cases "exec rq t")
  obtain out2 t2 c2 where r: "run_body (k res) t1 = (out2, t2, c2)" by (cases "run_body (k res) t1") 
  from Call.prems e r have "t' = t2" by simp
  moreover have "step_ok t1 t2" using Call.IH [OF _ r] by blast
  ultimately show ?case using exec_ok [OF e] step_ok_trans by blast
qed (simp_all add: step_ok_refl)

lemma run_body_no_mutation:
  "run_body b t = (out, t', calls) \<Longrightarrow> list_all (\<lambda>rq. \<not> is_mutation rq) calls \<Longrightarrow> t' = t"
proof (induction b arbitrary: t out t' calls)
  case (Call rq k)
  obtain res t1 where e: "exec rq t = (res, t1)" by (cases "exec rq t")
  obtain out2 t2 c2 where r: "run_body (k res) t1 = (out2, t2, c2)" by (cases "run_body (k res) t1") 
  from Call.prems e r have eq: "t' = t2" "calls = rq # c2" by simp_all
  with Call.prems have "\<not> is_mutation rq" "list_all (\<lambda>rq. \<not> is_mutation rq) c2" by simp_all
  then have "t1 = t" "t2 = t1" using exec_no_mutation [OF _ e] Call.IH [OF _ r] by blast+
  with eq show ?case by simp
qed simp_all

lemma fresh_run_clock:
  assumes "run_body b \<lparr>storage = s, didIncrementClock = False\<rparr> = (out, t, calls)"
    and "getClock (sql s) = Inr c"
  shows "listeners (storage t) = listeners s \<and> nextListener (storage t) = nextListener s \<and>
         (getClock (sql (storage t)) = Inr c \<or> getClock (sql (storage t)) = Inr (c + 1))"
  using run_body_ok [OF assms(1)] assms(2)
  by (auto simp: step_ok_def getClock_rows inc_rows_def)

lemma notify_events:
  "notify ls source c = (evs, r) \<Longrightarrow> set evs \<subseteq> (\<lambda>(h, cb). (h, source, c)) ` set ls"
  by (induction ls source c arbitrary: evs r rule: notify.induct)
     (auto split: option.splits prod.splits)

lemma notify_all:
  "notify ls source c = (evs, None) \<Longrightarrow> evs = map (\<lambda>(h, cb). (h, source, c)) ls"
  by (induction ls source c arbitrary: evs rule: notify.induct)
     (auto split: option.splits prod.splits)

text \<open>
  C4. When the body throws \<open>e\<close>, \<open>transaction\<close> throws \<open>e\<close> to its caller, the four
  tables are what they were before the call, the listener set is unchanged and no
  listener is called. (A prune requested by a \<open>deleteDocument\<close> of the body stays
  requested: the throttle is not part of the SQL scope.)
\<close>

theorem transaction_body_failure:
  assumes "getClock (sql s) = Inr c"
    and "run_body callback \<lparr>storage = s, didIncrementClock = False\<rparr> = (Inl e, t, calls)"
  shows "\<exists>s'. transaction s source callback = (Inl e, s', [])
           \<and> sql s' = sql s \<and> listeners s' = listeners s
           \<and> nextListener s' = nextListener s"
  using assms fresh_run_clock [OF assms(2) assms(1)]
  by (simp add: transaction_def transactionSync_def state_transaction_def)

theorem transaction_body_failure_witness:
  "getClock (sql storage_S3) = Inr 3
   \<and> fst (run_body body_write_then_throw \<lparr>storage = storage_S3, didIncrementClock = False\<rparr>)
       = Inl (Thrown ''boom'')
   \<and> map fst (documents (fst (snd
        (run_body body_write_then_throw \<lparr>storage = storage_S3, didIncrementClock = False\<rparr>))))
       = [''r:2'', ''r:3'', ''r:4'']
   \<and> (\<exists>s'. transaction storage_S3 ''user'' body_write_then_throw = (Inl (Thrown ''boom''), s', [])
           \<and> sql s' = sql storage_S3 \<and> listeners s' = listeners storage_S3
           \<and> nextListener s' = nextListener storage_S3)"
proof -
  have h: "getClock (sql storage_S3) = Inr 3"
    by (simp add: eval_defs)
  obtain out t calls where
    run: "run_body body_write_then_throw \<lparr>storage = storage_S3, didIncrementClock = False\<rparr>
            = (out, t, calls)"
    by (cases "run_body body_write_then_throw \<lparr>storage = storage_S3, didIncrementClock = False\<rparr>")
  have out: "out = Inl (Thrown ''boom'')"
    and docs: "map fst (documents t) = [''r:2'', ''r:3'', ''r:4'']"
    using run by (auto simp add: eval_defs documents_def)
  show ?thesis
    using h run out docs transaction_body_failure [OF h run [unfolded out], of "''user''"]
    by simp
qed

text \<open>
  C6. Whatever calls the body makes and however the call ends, the clock of the store
  after \<open>transaction\<close> is the clock before the call or that clock plus one; the clock
  that a returning call reports is the clock of the store, so
  \<open>clockBefore \<le> newClock \<le> clockBefore + 1\<close>.
\<close>

theorem transaction_clock_once:
  assumes "getClock (sql s) = Inr clockBefore"
    and "transaction s source callback = (out, s', evs)"
  shows "(getClock (sql s') = Inr clockBefore \<or> getClock (sql s') = Inr (clockBefore + 1))
       \<and> (\<forall>r. out = Inr r \<longrightarrow>
             getClock (sql s') = Inr (documentClock r)
           \<and> clockBefore \<le> documentClock r \<and> documentClock r \<le> clockBefore + 1)"
proof -
  obtain out1 t calls where
    run: "run_body callback \<lparr>storage = s, didIncrementClock = False\<rparr> = (out1, t, calls)"
    by (cases "run_body callback \<lparr>storage = s, didIncrementClock = False\<rparr>")
  show ?thesis
    using assms run fresh_run_clock [OF run assms(1)]
    by (auto simp: transaction_def transactionSync_def state_transaction_def Let_def
          split: sum.splits if_splits prod.splits option.splits)
qed

theorem transaction_clock_once_witness:
  "getClock (sql storage_S3) = Inr 3
   \<and> fst (transaction storage_S3 ''user'' body_set_delete)
       = Inr \<lparr>documentClock = 4, didChange = True, result = ()\<rparr>
   \<and> (3::int) \<le> 4 \<and> (4::int) \<le> 3 + 1
   \<and> getClock (sql (fst (snd (transaction storage_S3 ''user'' body_set_delete)))) = Inr 4"
proof -
  have h: "getClock (sql storage_S3) = Inr 3"
    by (simp add: eval_defs)
  obtain r s' evs where tr: "transaction storage_S3 ''user'' body_set_delete = (r, s', evs)"
    by (cases "transaction storage_S3 ''user'' body_set_delete")
  have r: "r = Inr \<lparr>documentClock = 4, didChange = True, result = ()\<rparr>"
    using tr by (auto simp add: eval_defs)
  show ?thesis
    using h tr r transaction_clock_once [OF h tr] by simp
qed

text \<open>
  C5. When \<open>transaction\<close> returns, \<open>didChange\<close> says whether the clock returned (the clock
  read after the body) is above the clock read before the call; the listeners called are
  all the registered ones, each once, in registration order, with the caller's source and
  the returned clock, if \<open>didChange\<close>, and none otherwise. However the call ends, a
  listener is called only after the body has returned and the clock read then is above
  the clock read before, and only with the source and that clock. A body that calls
  neither \<open>setDocument\<close>, \<open>deleteDocument\<close> nor \<open>setMetadata\<close> has no listener called.
\<close>

theorem transaction_listeners:
  assumes "getClock (sql s) = Inr clockBefore"
  shows "(\<forall>r s' evs. transaction s source callback = (Inr r, s', evs) \<longrightarrow>
            didChange r = (documentClock r > clockBefore)
          \<and> getClock (sql s') = Inr (documentClock r)
          \<and> evs = (if didChange r
                   then map (\<lambda>(h, cb). (h, source, documentClock r)) (listeners s)
                   else []))
       \<and> (snd (snd (transaction s source callback)) \<noteq> [] \<longrightarrow>
            (\<exists>res t calls clockAfter.
                run_body callback \<lparr>storage = s, didIncrementClock = False\<rparr> = (Inr res, t, calls)
              \<and> getClock (sql (storage t)) = Inr clockAfter \<and> clockBefore < clockAfter
              \<and> set (snd (snd (transaction s source callback)))
                   \<subseteq> (\<lambda>(h, cb). (h, source, clockAfter)) ` set (listeners s)))
       \<and> (list_all (\<lambda>rq. \<not> is_mutation rq)
             (snd (snd (run_body callback \<lparr>storage = s, didIncrementClock = False\<rparr>)))
          \<longrightarrow> snd (snd (transaction s source callback)) = [])"
proof -
  obtain out t calls where
    run: "run_body callback \<lparr>storage = s, didIncrementClock = False\<rparr> = (out, t, calls)"
    by (cases "run_body callback \<lparr>storage = s, didIncrementClock = False\<rparr>")
  note f = fresh_run_clock [OF run assms(1)]
  have nm: "list_all (\<lambda>rq. \<not> is_mutation rq) calls \<Longrightarrow> storage t = s"
    using run_body_no_mutation [OF run] by auto
  have 1: "\<forall>r s' evs. transaction s source callback = (Inr r, s', evs) \<longrightarrow>
            didChange r = (documentClock r > clockBefore)
          \<and> getClock (sql s') = Inr (documentClock r)
          \<and> evs = (if didChange r
                   then map (\<lambda>(h, cb). (h, source, documentClock r)) (listeners s)
                   else [])"
    using assms run f
    by (auto simp: transaction_def transactionSync_def state_transaction_def Let_def
          split: sum.splits if_splits prod.splits option.splits dest: notify_all)
  have 2: "list_all (\<lambda>rq. \<not> is_mutation rq) calls \<Longrightarrow> snd (snd (transaction s source callback)) = []"
    using assms run nm
    by (auto simp: transaction_def transactionSync_def state_transaction_def Let_def
          split: sum.splits if_splits prod.splits option.splits)
  have 3: "snd (snd (run_body callback \<lparr>storage = s, didIncrementClock = False\<rparr>)) = calls"
    using run by simp
  have 4: "snd (snd (transaction s source callback)) \<noteq> [] \<longrightarrow>
            (\<exists>res clockAfter. out = Inr res
              \<and> getClock (sql (storage t)) = Inr clockAfter \<and> clockBefore < clockAfter
              \<and> set (snd (snd (transaction s source callback)))
                   \<subseteq> (\<lambda>(h, cb). (h, source, clockAfter)) ` set (listeners s))"
    using assms run f
    by (auto simp: transaction_def transactionSync_def state_transaction_def Let_def
          split: sum.splits if_splits prod.splits option.splits dest!: notify_events)
  show ?thesis unfolding 3 using 1 2 4 run by blast
qed

theorem transaction_listeners_witness:
  "getClock (sql storage_S3) = Inr 3
   \<and> fst (transaction storage_S3 ''user'' body_set_delete)
       = Inr \<lparr>documentClock = 4, didChange = True, result = ()\<rparr>
   \<and> snd (snd (transaction storage_S3 ''user'' body_set_delete))
       = [(0, ''user'', 4), (1, ''user'', 4)]
   \<and> (\<exists>res t calls clockAfter.
         run_body body_set_delete \<lparr>storage = storage_S3, didIncrementClock = False\<rparr>
           = (Inr res, t, calls)
       \<and> getClock (sql (storage t)) = Inr clockAfter \<and> 3 < clockAfter)
   \<and> list_all (\<lambda>rq. \<not> is_mutation rq)
        (snd (snd (run_body body_read \<lparr>storage = storage_S3, didIncrementClock = False\<rparr>)))
   \<and> snd (snd (transaction storage_S3 ''user'' body_read)) = []"
proof -
  have h: "getClock (sql storage_S3) = Inr 3"
    by (simp add: eval_defs)
  obtain r s' evs where tr: "transaction storage_S3 ''user'' body_set_delete = (r, s', evs)"
    by (cases "transaction storage_S3 ''user'' body_set_delete")
  have r: "r = Inr \<lparr>documentClock = 4, didChange = True, result = ()\<rparr>"
    using tr by (auto simp add: eval_defs)
  have ls: "listeners storage_S3 = [(0, quiet), (1, quiet)]"
    by (simp add: storage_S3_def)
  note inst = transaction_listeners [OF h, of "''user''" body_set_delete]
  have evs: "evs = [(0, ''user'', 4), (1, ''user'', 4)]"
    using inst tr [unfolded r] ls by simp
  have "snd (snd (transaction storage_S3 ''user'' body_set_delete)) \<noteq> []"
    using tr evs by simp
  with inst have after: "\<exists>res t calls clockAfter.
         run_body body_set_delete \<lparr>storage = storage_S3, didIncrementClock = False\<rparr>
           = (Inr res, t, calls)
       \<and> getClock (sql (storage t)) = Inr clockAfter \<and> 3 < clockAfter"
    by blast
  have ro: "list_all (\<lambda>rq. \<not> is_mutation rq)
        (snd (snd (run_body body_read \<lparr>storage = storage_S3, didIncrementClock = False\<rparr>)))"
    by (simp add: body_read_def call_def)
  have none: "snd (snd (transaction storage_S3 ''user'' body_read)) = []"
    using transaction_listeners [OF h, of "''user''" body_read] ro by blast
  show ?thesis using h tr r evs after ro none by simp
qed

section \<open>Documents and tombstones\<close>

lemma setDocument_tombstones_unchanged:
  "tombstones_table (sql (storage (snd (setDocument t ident state))))
     = tombstones_table (sql (storage t))"
  by (simp add: setDocument_def getNextClock_def update_sql_def Let_def split: sum.splits)

lemma deleteDocument_tables:
  assumes "deleteDocument t ident = (Inr u, t')"
  shows "\<exists>c. documents_table (sql (storage t'))
             = filter (\<lambda>(i, st, lc). i \<noteq> ident) (documents_table (sql (storage t)))
           \<and> tombstones_table (sql (storage t'))
             = tombstones_table (sql (storage t)) @ [(ident, c)]"
  using assms
  by (auto simp: deleteDocument_def getNextClock_def update_sql_def Let_def
        split: sum.splits if_splits)

lemma deleteDocument_ids_disjoint:
  assumes "ids_disjoint (sql (storage t))" and "deleteDocument t ident = (Inr u, t')"
  shows "ids_disjoint (sql (storage t'))"
proof -
  from deleteDocument_tables [OF assms(2)] obtain c where
    d: "documents_table (sql (storage t'))
          = filter (\<lambda>(i, st, lc). i \<noteq> ident) (documents_table (sql (storage t)))"
    and ts: "tombstones_table (sql (storage t'))
          = tombstones_table (sql (storage t)) @ [(ident, c)]"
    by blast
  show ?thesis
    using assms(1) unfolding ids_disjoint_def d ts
    by (fastforce simp: list_all_iff)
qed

text \<open>
  C1, evaluated. From the store of S1, a transaction deletes \<open>r:1\<close> (the store of S2:
  no document, tombstone \<open>(r:1, 2)\<close>), and the next transaction sets \<open>r:1\<close> again. The
  write leaves the tombstone where it is: \<open>r:1\<close> is then in both tables.
\<close>

theorem setDocument_keeps_tombstone:
  "transaction storage_S1 ''user'' body_delete_r1
     = (Inr \<lparr>documentClock = 2, didChange = True, result = ()\<rparr>, storage_S2,
        [(0, ''user'', 2), (1, ''user'', 2)])
   \<and> ids_disjoint (sql storage_S1)
   \<and> ids_disjoint (sql storage_S2)
   \<and> fst (transaction storage_S2 ''user'' body_set_r1)
       = Inr \<lparr>documentClock = 3, didChange = True, result = ()\<rparr>
   \<and> sql (fst (snd (transaction storage_S2 ''user'' body_set_r1)))
       = \<lparr>documents_table = [(''r:1'', ''one again'', 3)],
          tombstones_table = [(''r:1'', 2)],
          metadata_table = [(''schema'', ''{}'')],
          clock_table = [(3, 0)]\<rparr>
   \<and> \<not> ids_disjoint (sql (fst (snd (transaction storage_S2 ''user'' body_set_r1))))"
  by (simp add: eval_defs ids_disjoint_def)

lemma deleteDocument_without_tombstone:
  assumes "getClock (sql (storage t)) = Inr c"
    and "ident \<notin> set (map fst (tombstones_table (sql (storage t))))"
  shows "\<exists>t'. deleteDocument t ident = (Inr (), t')
     \<and> documents_table (sql (storage t'))
         = filter (\<lambda>(i, st, lc). i \<noteq> ident) (documents_table (sql (storage t)))
     \<and> tombstones_table (sql (storage t'))
         = tombstones_table (sql (storage t)) @ [(ident, if didIncrementClock t then c else c + 1)]
     \<and> getClock (sql (storage t')) = Inr (if didIncrementClock t then c else c + 1)"
proof -
  from assms(1) obtain w rest where rows: "clock_table (sql (storage t)) = (c, w) # rest"
    by (auto simp: getClock_rows)
  show ?thesis
    using assms(2) rows
    by (simp add: deleteDocument_def getNextClock_def update_sql_def Let_def getClock_def
          one_def inc_rows_def)
qed

text \<open>
  C2, evaluated. On the store of S2, where \<open>r:1\<close> has a tombstone and no document,
  \<open>deleteDocument('r:1')\<close> throws the primary-key error of the \<open>INSERT\<close>; the tombstone
  keeps its clock 2, and the transaction around the call rolls back.
\<close>

theorem deleteDocument_again_fails:
  "fst (deleteDocument \<lparr>storage = storage_S2, didIncrementClock = False\<rparr> ''r:1'')
     = Inl PrimaryKeyConstraint
   \<and> tombstones (snd (deleteDocument \<lparr>storage = storage_S2, didIncrementClock = False\<rparr> ''r:1''))
     = [(''r:1'', 2)]
   \<and> transaction storage_S2 ''user'' body_delete_r1 = (Inl PrimaryKeyConstraint, storage_S2, [])"
  by (simp add: eval_defs tombstones_def)

section \<open>Properties of pruneTombstones\<close>

lemma foldl_delete_tombstone:
  "foldl delete_tombstone db ids =
     db\<lparr>tombstones_table := filter (\<lambda>(i, c). i \<notin> set ids) (tombstones_table db)\<rparr>"
proof (induction ids arbitrary: db)
  case Nil
  show ?case by simp
next
  case (Cons a ids)
  have "filter (\<lambda>(i, c). i \<notin> set ids) (filter (\<lambda>(i, c). i \<noteq> a) xs)
        = filter (\<lambda>(i, c). i \<notin> set (a # ids)) xs" for xs :: "tombstones_row list"
    by (induction xs) auto
  with Cons show ?case by (simp add: delete_tombstone_def)
qed

lemma find_cutoff_ge: "k \<le> find_cutoff ts k"
proof (induction ts k rule: find_cutoff.induct)
  case (1 ts cutoff)
  show ?case
    using 1 by (subst find_cutoff.simps) (auto simp: Suc_leD)
qed

lemma find_cutoff_boundary:
  "0 < k \<Longrightarrow> find_cutoff ts k < length ts \<Longrightarrow>
     snd (ts ! (find_cutoff ts k - 1)) \<noteq> snd (ts ! find_cutoff ts k)"
proof (induction ts k rule: find_cutoff.induct)
  case (1 ts cutoff)
  show ?case
  proof (cases "cutoff < length ts \<and> 0 < cutoff \<and> snd (ts ! (cutoff - 1)) = snd (ts ! cutoff)")
    case True
    then have eq: "find_cutoff ts cutoff = find_cutoff ts (Suc cutoff)"
      by (subst find_cutoff.simps) simp
    show ?thesis using 1 True eq by simp
  next
    case False
    then have eq: "find_cutoff ts cutoff = cutoff"
      by (subst find_cutoff.simps) auto
    show ?thesis using 1 False eq by auto
  qed
qed

lemma order_desc_set: "set (order_by_clock_desc rows) = set rows"
  by (simp add: order_by_clock_desc_def)

lemma order_desc_length: "length (order_by_clock_desc rows) = length rows"
  by (simp add: order_by_clock_desc_def)

lemma order_desc_nth:
  assumes "i \<le> j" and "j < length rows"
  shows "snd (order_by_clock_desc rows ! j) \<le> snd (order_by_clock_desc rows ! i)"
proof -
  let ?ts = "order_by_clock_desc rows"
  have s: "sorted (map (\<lambda>(i, c). - c) ?ts)"
    by (simp add: order_by_clock_desc_def)
  have "map (\<lambda>(i, c). - c) ?ts ! i \<le> map (\<lambda>(i, c). - c) ?ts ! j"
    using assms by (intro sorted_nth_mono [OF s]) (simp_all add: order_desc_length)
  then show ?thesis using assms by (simp add: order_desc_length case_prod_unfold)
qed

lemma order_desc_distinct:
  "distinct (map fst rows) \<Longrightarrow> distinct (map fst (order_by_clock_desc rows))"
  by (simp add: distinct_map order_by_clock_desc_def)

lemma prune_over:
  assumes count: "MAX_TOMBSTONES < length (tombstones_table db)"
    and cut: "prune_cutoff db < length (tombstones_table db)"
  shows "pruneTombstones db =
     (None, db\<lparr>clock_table :=
                 map (\<lambda>(dc, w). (dc, snd (order_by_clock_desc (tombstones_table db) ! prune_cutoff db)))
                   (clock_table db),
               tombstones_table :=
                 filter (\<lambda>(i, c). i \<notin> set (map fst (drop (prune_cutoff db)
                           (order_by_clock_desc (tombstones_table db)))))
                   (tombstones_table db)\<rparr>)"
  using assms
  by (simp add: pruneTombstones_def Let_def order_desc_length foldl_delete_tombstone)

lemma prune_cutoff_facts:
  assumes cut: "prune_cutoff db < length (tombstones_table db)"
  defines "ts \<equiv> order_by_clock_desc (tombstones_table db)"
  defines "k \<equiv> prune_cutoff db"
  shows "\<forall>r \<in> set (take k ts). snd (ts ! k) < snd r"
    and "\<forall>r \<in> set (drop k ts). snd r \<le> snd (ts ! k)"
proof -
  have len: "length ts = length (tombstones_table db)"
    by (simp add: ts_def order_desc_length)
  have kpos: "0 < k" "k < length ts"
    using cut find_cutoff_ge [of TOMBSTONE_PRUNE_BUFFER_SIZE ts]
    by (simp_all add: k_def prune_cutoff_def ts_def TOMBSTONE_PRUNE_BUFFER_SIZE_def len [unfolded ts_def])
  have ne: "snd (ts ! (k - 1)) \<noteq> snd (ts ! k)"
    using find_cutoff_boundary [of TOMBSTONE_PRUNE_BUFFER_SIZE ts] kpos
    by (simp add: k_def prune_cutoff_def ts_def TOMBSTONE_PRUNE_BUFFER_SIZE_def)
  have le: "snd (ts ! k) \<le> snd (ts ! (k - 1))"
    using order_desc_nth [of "k - 1" k "tombstones_table db"] kpos len by (simp add: ts_def)
  show "\<forall>r \<in> set (take k ts). snd (ts ! k) < snd r"
  proof
    fix r assume "r \<in> set (take k ts)"
    then obtain i where i: "i < k" "r = ts ! i"
      using kpos by (auto simp: in_set_conv_nth)
    have "snd (ts ! (k - 1)) \<le> snd (ts ! i)"
      using order_desc_nth [of i "k - 1" "tombstones_table db"] i kpos len by (simp add: ts_def)
    with ne le i show "snd (ts ! k) < snd r" by simp
  qed
  show "\<forall>r \<in> set (drop k ts). snd r \<le> snd (ts ! k)"
  proof
    fix r assume "r \<in> set (drop k ts)"
    then obtain j where j: "j < length ts - k" "r = ts ! (k + j)"
      by (auto simp: in_set_conv_nth)
    show "snd r \<le> snd (ts ! k)"
      using order_desc_nth [of k "k + j" "tombstones_table db"] j len by (simp add: ts_def)
  qed
qed

lemma retained_rows:
  assumes "distinct (map fst ts)"
  shows "{r \<in> set ts. fst r \<notin> set (map fst (drop k ts))} = set (take k ts)"
proof -
  have d: "distinct (map fst (take k ts) @ map fst (drop k ts))"
    using assms by (simp flip: map_append)
  have s: "set ts = set (take k ts) \<union> set (drop k ts)"
    by (metis append_take_drop_id set_append)
  show ?thesis using d s by (auto simp: rev_image_eqI)
qed

lemma example_rows_nth: "i < n \<Longrightarrow> rev [0..<n] ! i = n - Suc i"
  by (simp add: rev_nth)

lemma example_rows_ordered:
  "order_by_clock_desc (map tombstone_no (rev [0..<n])) = map tombstone_no (rev [0..<n])"
proof -
  have "sorted (rev (map (\<lambda>k. - int k) [0..<n]))"
    by (simp add: sorted_rev_iff_nth_mono)
  then have "sorted (map (\<lambda>(i, c). - c) (map tombstone_no (rev [0..<n])))"
    by (simp add: rev_map tombstone_no_def comp_def)
  then show ?thesis
    unfolding order_by_clock_desc_def by (rule sort_key_id_if_sorted)
qed

lemma example_rows_distinct: "distinct (map fst (map tombstone_no (rev [0..<n])))"
  by (simp add: distinct_map inj_on_def tombstone_no_def comp_def)

lemma example_cutoff: "prune_cutoff prune_example = 1000"
proof -
  have n: "map tombstone_no (rev [0..<5001]) ! 999 = tombstone_no 4001"
          "map tombstone_no (rev [0..<5001]) ! 1000 = tombstone_no 4000"
    by (simp_all add: example_rows_nth del: upt_rec_numeral)
  have "find_cutoff (map tombstone_no (rev [0..<5001])) 1000 = 1000"
    by (subst find_cutoff.simps) (simp add: n tombstone_no_def del: upt_rec_numeral)
  then show ?thesis
    by (simp add: prune_cutoff_def prune_example_def example_rows_ordered
          TOMBSTONE_PRUNE_BUFFER_SIZE_def del: upt_rec_numeral)
qed

lemma filter_retained:
  assumes "distinct (map fst ts)"
  shows "filter (\<lambda>(i, c). i \<notin> set (map fst (drop k ts))) ts = take k ts"
proof -
  let ?P = "\<lambda>(i, c). i \<notin> set (map fst (drop k ts))"
  have d: "distinct (map fst (take k ts) @ map fst (drop k ts))"
    using assms by (simp flip: map_append)
  have 1: "filter ?P (take k ts) = take k ts"
    using d by (intro filter_True) (auto simp: rev_image_eqI)
  have 2: "filter ?P (drop k ts) = []"
    by (auto simp: filter_empty_conv rev_image_eqI)
  have "filter ?P ts = filter ?P (take k ts @ drop k ts)" by simp
  also have "\<dots> = take k ts" unfolding filter_append 1 2 by simp
  finally show ?thesis .
qed

lemma example_count: "length (tombstones_table prune_example) = 5001"
  by (simp add: prune_example_def del: upt_rec_numeral)

lemma example_pruned:
  "pruneTombstones prune_example =
     (None, prune_example\<lparr>clock_table := [(5001, 4000)],
                          tombstones_table := map tombstone_no (rev [4001..<5001])\<rparr>)"
proof -
  have count: "MAX_TOMBSTONES < length (tombstones_table prune_example)"
    by (simp add: example_count MAX_TOMBSTONES_def)
  have cut: "prune_cutoff prune_example < length (tombstones_table prune_example)"
    by (simp add: example_cutoff example_count)
  have rows: "tombstones_table prune_example = map tombstone_no (rev [0..<5001])"
    by (simp add: prune_example_def del: upt_rec_numeral)
  have t: "take 1000 (map tombstone_no (rev [0..<5001])) = map tombstone_no (rev [4001..<5001])"
    by (simp add: take_map take_rev del: upt_rec_numeral)
  have w: "snd (map tombstone_no (rev [0..<5001]) ! 1000) = 4000"
    by (simp add: example_rows_nth tombstone_no_def del: upt_rec_numeral)
  have c: "clock_table prune_example = [(5001, 0)]"
    by (simp add: prune_example_def del: upt_rec_numeral)
  show ?thesis
    unfolding prune_over [OF count cut] example_cutoff rows example_rows_ordered
      filter_retained [OF example_rows_distinct] t w c
    by (simp del: upt_rec_numeral)
qed

lemma example_oldest: "Min (snd ` tombstone_no ` {4001..<5001}) = 4001"
proof (rule Min_eqI)
  show "finite (snd ` tombstone_no ` {4001..<5001})"
    by simp
  show "4001 \<le> y" if "y \<in> snd ` tombstone_no ` {4001..<5001}" for y
    using that by (auto simp: tombstone_no_def)
  have "(4001::nat) \<in> {4001..<5001}" by simp
  then have "snd (tombstone_no 4001) \<in> snd ` tombstone_no ` {4001..<5001}"
    by (intro imageI)
  then show "4001 \<in> snd ` tombstone_no ` {4001..<5001}"
    by (simp add: tombstone_no_def)
qed

text \<open>
  C10. A run of the prune body leaves the \<open>documents\<close> table, the \<open>metadata\<close> table and
  the \<open>documentClock\<close> column as they are; with at most \<open>MAX_TOMBSTONES\<close> tombstones
  it ends without an error and changes nothing.
\<close>

theorem pruneTombstones_frame:
  "documents_table (snd (pruneTombstones db)) = documents_table db
   \<and> metadata_table (snd (pruneTombstones db)) = metadata_table db
   \<and> getClock (snd (pruneTombstones db)) = getClock db
   \<and> map fst (clock_table (snd (pruneTombstones db))) = map fst (clock_table db)
   \<and> (length (tombstones_table db) \<le> MAX_TOMBSTONES \<longrightarrow> pruneTombstones db = (None, db))"
proof -
  have m: "map fst (map (\<lambda>(dc, w). (dc, x)) rows) = map fst rows" for x :: int and rows :: "clock_row list"
    by (induction rows) auto
  have col: "map fst (clock_table (snd (pruneTombstones db))) = map fst (clock_table db)"
    by (auto simp: pruneTombstones_def Let_def foldl_delete_tombstone m simp del: map_map
          split: sum.splits)
  have clk: "getClock (snd (pruneTombstones db)) = getClock db"
    using col by (simp add: getClock_def)
  have frame: "documents_table (snd (pruneTombstones db)) = documents_table db
      \<and> metadata_table (snd (pruneTombstones db)) = metadata_table db"
    by (auto simp: pruneTombstones_def Let_def foldl_delete_tombstone split: sum.splits)
  have small: "length (tombstones_table db) \<le> MAX_TOMBSTONES \<longrightarrow> pruneTombstones db = (None, db)"
    by (simp add: pruneTombstones_def)
  show ?thesis using col clk frame small by blast
qed

theorem pruneTombstones_frame_witness:
  "length (tombstones_table store_S3) \<le> MAX_TOMBSTONES
   \<and> pruneTombstones store_S3 = (None, store_S3)"
proof -
  have h: "length (tombstones_table store_S3) \<le> MAX_TOMBSTONES"
    by (simp add: store_S3_def MAX_TOMBSTONES_def)
  show ?thesis using h pruneTombstones_frame [of store_S3] by blast
qed

text \<open>
  C3, as stated, on the store with tombstones at the clocks 0 to 5000: the run keeps the
  1000 tombstones with the clocks 4001 to 5000 and sets the watermark to 4000, the clock
  of a tombstone it drops; the oldest tombstone retained has the clock 4001.
\<close>

theorem pruneTombstones_watermark_counterexample:
  "MAX_TOMBSTONES < length (tombstones_table prune_example)
   \<and> prune_cutoff prune_example < length (tombstones_table prune_example)
   \<and> length (tombstones_table (snd (pruneTombstones prune_example))) = 1000
   \<and> getTombstoneHistoryStartsAtClock (snd (pruneTombstones prune_example)) = Inr 4000
   \<and> Min (snd ` set (tombstones_table (snd (pruneTombstones prune_example)))) = 4001"
  unfolding example_pruned example_cutoff example_count
  by (simp add: example_oldest getTombstoneHistoryStartsAtClock_def one_def MAX_TOMBSTONES_def
        del: upt_rec_numeral)

text \<open>
  C3, amended. When a run drops a tombstone (more than \<open>MAX_TOMBSTONES\<close> rows, the
  cutoff inside the list), it ends without an error and the watermark afterwards is the
  clock of the newest tombstone dropped: some dropped row has it, no dropped row has a
  later clock, and every row retained has a strictly later one. The ids of the table are
  distinct (its primary key) and the clock row exists.
\<close>

theorem pruneTombstones_watermark:
  assumes count: "MAX_TOMBSTONES < length (tombstones_table db)"
    and cut: "prune_cutoff db < length (tombstones_table db)"
    and pk: "distinct (map fst (tombstones_table db))"
    and clk: "getClock db = Inr c"
  shows "\<exists>w'. fst (pruneTombstones db) = None
     \<and> getTombstoneHistoryStartsAtClock (snd (pruneTombstones db)) = Inr w'
     \<and> w' \<in> snd ` (set (tombstones_table db) - set (tombstones_table (snd (pruneTombstones db))))
     \<and> (\<forall>r \<in> set (tombstones_table db) - set (tombstones_table (snd (pruneTombstones db))). snd r \<le> w')
     \<and> (\<forall>r \<in> set (tombstones_table (snd (pruneTombstones db))). w' < snd r)"
proof -
  let ?ts = "order_by_clock_desc (tombstones_table db)"
  let ?k = "prune_cutoff db"
  let ?w = "snd (?ts ! ?k)"
  let ?db' = "snd (pruneTombstones db)"
  have len: "length ?ts = length (tombstones_table db)" by (rule order_desc_length)
  have after: "set (tombstones_table ?db') = set (take ?k ?ts)"
  proof -
    have "set (tombstones_table ?db') = {r \<in> set ?ts. fst r \<notin> set (map fst (drop ?k ?ts))}"
      by (force simp: prune_over [OF count cut] order_desc_set)
    then show ?thesis using retained_rows [OF order_desc_distinct [OF pk]] by simp
  qed
  have dist: "distinct ?ts" using order_desc_distinct [OF pk] by (simp add: distinct_map)
  have split: "set (tombstones_table db) = set (take ?k ?ts) \<union> set (drop ?k ?ts)"
    by (metis append_take_drop_id set_append order_desc_set)
  have disj: "set (take ?k ?ts) \<inter> set (drop ?k ?ts) = {}"
    using dist by (metis append_take_drop_id distinct_append)
  have dropped: "set (tombstones_table db) - set (tombstones_table ?db') = set (drop ?k ?ts)"
    using after split disj by auto
  have "?ts ! ?k \<in> set (drop ?k ?ts)"
    using cut len by (metis Cons_nth_drop_Suc list.set_intros(1))
  then have 1: "?w \<in> snd ` (set (tombstones_table db) - set (tombstones_table ?db'))"
    using dropped by blast
  from clk obtain w rest where rows: "clock_table db = (c, w) # rest"
    by (cases "clock_table db") (auto simp: getClock_def one_def)
  have 2: "getTombstoneHistoryStartsAtClock ?db' = Inr ?w"
    by (simp add: prune_over [OF count cut] getTombstoneHistoryStartsAtClock_def one_def rows)
  have 3: "fst (pruneTombstones db) = None"
    by (simp add: prune_over [OF count cut])
  show ?thesis
    using 1 2 3 prune_cutoff_facts [OF cut] after dropped by blast
qed

theorem pruneTombstones_watermark_witness:
  "MAX_TOMBSTONES < length (tombstones_table prune_example)
   \<and> prune_cutoff prune_example < length (tombstones_table prune_example)
   \<and> distinct (map fst (tombstones_table prune_example))
   \<and> getClock prune_example = Inr 5001
   \<and> (\<exists>w'. fst (pruneTombstones prune_example) = None
     \<and> getTombstoneHistoryStartsAtClock (snd (pruneTombstones prune_example)) = Inr w'
     \<and> w' \<in> snd ` (set (tombstones_table prune_example)
                     - set (tombstones_table (snd (pruneTombstones prune_example)))))"
proof -
  have count: "MAX_TOMBSTONES < length (tombstones_table prune_example)"
    by (simp add: example_count MAX_TOMBSTONES_def)
  have cut: "prune_cutoff prune_example < length (tombstones_table prune_example)"
    by (simp add: example_cutoff example_count)
  have pk: "distinct (map fst (tombstones_table prune_example))"
    using example_rows_distinct [of 5001] by (simp add: prune_example_def del: upt_rec_numeral)
  have clk: "getClock prune_example = Inr 5001"
    by (simp add: getClock_def one_def prune_example_def del: upt_rec_numeral)
  show ?thesis
    using count cut pk clk pruneTombstones_watermark [OF count cut pk clk] by blast
qed

section \<open>The primary keys are kept\<close>

lemma keys_getNextClock:
  "getNextClock t = (r, t') \<Longrightarrow> keys_distinct (sql (storage t')) = keys_distinct (sql (storage t))"
  by (auto simp: getNextClock_def Let_def update_sql_def keys_distinct_def split: if_splits)

lemma keys_setDocument:
  assumes "keys_distinct (sql (storage t))" and "setDocument t ident st = (r, t')"
  shows "keys_distinct (sql (storage t'))"
proof -
  obtain r1 t1 where g: "getNextClock t = (r1, t1)" by (cases "getNextClock t")
  have k1: "keys_distinct (sql (storage t1))" using keys_getNextClock [OF g] assms(1) by simp
  have "distinct (map fst (filter (\<lambda>(i, st, lc). i \<noteq> ident) rows @ [(ident, st, c)]))"
    if "distinct (map fst rows)" for rows :: "'a documents_row list" and c
    using that by (auto simp: distinct_map_filter)
  with k1 assms(2) g show ?thesis
    by (auto simp: setDocument_def update_sql_def keys_distinct_def split: sum.splits)
qed

lemma keys_deleteDocument:
  assumes "keys_distinct (sql (storage t))" and "deleteDocument t ident = (r, t')"
  shows "keys_distinct (sql (storage t'))"
proof -
  obtain r1 t1 where g: "getNextClock t = (r1, t1)" by (cases "getNextClock t")
  have k1: "keys_distinct (sql (storage t1))" using keys_getNextClock [OF g] assms(1) by simp
  with assms(2) g show ?thesis
    by (auto simp: deleteDocument_def update_sql_def keys_distinct_def Let_def distinct_map_filter
          split: sum.splits if_splits)
qed

lemma keys_setMetadata:
  assumes "keys_distinct (sql (storage t))"
  shows "keys_distinct (sql (storage (setMetadata t k v)))"
proof -
  have "distinct (map fst (filter (\<lambda>(k', v'). k' \<noteq> k) rows @ [(k, v)]))"
    if "distinct (map fst rows)" for rows :: "metadata_row list"
    using that by (auto simp: distinct_map_filter)
  with assms show ?thesis
    by (auto simp: setMetadata_def update_sql_def keys_distinct_def)
qed

lemma keys_exec:
  "keys_distinct (sql (storage t)) \<Longrightarrow> exec rq t = (r, t') \<Longrightarrow> keys_distinct (sql (storage t'))"
  by (cases rq)
     (auto split: prod.splits sum.splits dest: keys_setDocument keys_deleteDocument
        simp: keys_setMetadata)

lemma keys_run_body:
  "keys_distinct (sql (storage t)) \<Longrightarrow> run_body b t = (out, t', calls)
     \<Longrightarrow> keys_distinct (sql (storage t'))"
proof (induction b arbitrary: t out t' calls)
  case (Call rq k)
  obtain res t1 where e: "exec rq t = (res, t1)" by (cases "exec rq t")
  obtain out2 t2 c2 where r: "run_body (k res) t1 = (out2, t2, c2)"
    by (cases "run_body (k res) t1")
  from Call.prems e r have "t' = t2" by simp
  moreover have "keys_distinct (sql (storage t2))"
    using Call.IH [OF _ _ r] keys_exec [OF Call.prems(1) e] by blast
  ultimately show ?case by simp
qed simp_all

lemma keys_pruneTombstones:
  "keys_distinct db \<Longrightarrow> keys_distinct (snd (pruneTombstones db))"
  by (auto simp: pruneTombstones_def Let_def foldl_delete_tombstone keys_distinct_def
        distinct_map_filter split: sum.splits)

end
